theory Spec2Isabelle
  imports Complex_Main "HOL-Library.Multiset" "HOL-Library.Log_Nat"
begin

section \<open>Data model\<close>

text \<open>
  The portal is a set of React pages over the browser's \<open>localStorage\<close>. A value of
  the TypeScript type \<open>number\<close> is a rational. Prices, quantities and totals are added
  and multiplied exactly: the amounts that the statements below evaluate (12.5, 20, 33,
  250, 283) are small dyadic rationals, on which the arithmetic of doubles is exact.
  The tracking number is computed with the rounding of doubles (section
  \<open>Double arithmetic\<close>), since its digits depend on it.
\<close>

type_synonym number = rat

datatype rxStatus = Active | Expired | Used

text \<open>\<open>interface Prescription\<close> (dashboard/page.tsx, checkout/page.tsx).\<close>

record Prescription =
  rx_id :: string
  rx_name :: string
  strength :: string
  quantity :: number
  repeats :: number
  prescribedDate :: string
  expiryDate :: string
  rx_status :: rxStatus
  interval :: string
  price :: number

text \<open>\<open>interface CartItem\<close>.\<close>

record CartItem =
  prescription :: Prescription
  quantitySelected :: number

text \<open>
  The order object literal of \<open>handlePayment\<close>. \<open>patientEmail\<close> is what
  \<open>localStorage.getItem("userEmail")\<close> returned, so it may be \<open>null\<close>; \<open>status\<close> is a
  plain string, as \<open>interface Order\<close> declares it.
\<close>

record Order =
  order_id :: string
  patientEmail :: "string option"
  items :: "CartItem list"
  subtotal :: number
  shippingFee :: number
  order_total :: number
  order_status :: string
  createdAt :: string
  paymentMethod :: string
  shippingAddress :: string
  trackingNumber :: "string option"

text \<open>
  One key of \<open>localStorage\<close> that holds JSON: \<open>Absent\<close> when \<open>getItem\<close> returns
  \<open>null\<close> or the empty string (both falsy), \<open>Malformed\<close> when \<open>JSON.parse\<close> throws on the
  text or the value is not an array of objects, \<open>Stored v\<close> otherwise.
\<close>

datatype 'a slot = Absent | Malformed | Stored 'a

record LocalStorage =
  isAuthenticated :: "string option"
  userEmail :: "string option"
  cartItems :: "CartItem list slot"
  allOrders :: "Order list slot"
  currentOrder :: "Order option"

text \<open>
  What a handler shows for its caller: nothing (an early \<open>return\<close>), an \<open>alert\<close>, the
  \<open>catch\<close> branch (\<open>console.error\<close> and an \<open>alert\<close>), or a \<open>router.push\<close>.
\<close>

datatype signal = Silent | Alert string | Caught string | Navigate string

section \<open>Double arithmetic\<close>

text \<open>
  The result of an arithmetic operation on doubles is the exact result rounded to the
  nearest binary64 number, ties to the one with an even significand. For a rational
  \<open>x\<close> other than 0, \<open>floorLog2 \<bar>x\<bar>\<close> is the exponent \<open>e\<close> with
  \<open>2\<^sup>e \<le> \<bar>x\<bar> < 2\<^sup>e\<^sup>+\<^sup>1\<close>; the doubles around \<open>x\<close> are the multiples of
  \<open>2\<close> to the power \<open>ulpExponent x\<close> (53 significant bits, and no exponent below -1022:
  the subnormal numbers are the multiples of \<open>2\<close> to the power -1074). \<open>toDouble\<close>
  covers the finite range, below the power 1024 of 2; a rational is a double when
  rounding leaves it as it is.
\<close>

definition floorLog2 :: "rat \<Rightarrow> int" where
  "floorLog2 x = (if 1 \<le> x then bitlen \<lfloor>x\<rfloor> - 1 else - bitlen (\<lceil>1 / x\<rceil> - 1))"

definition roundHalfEven :: "rat \<Rightarrow> int" where
  "roundHalfEven q =
     (let f = \<lfloor>q\<rfloor>
      in if q - of_int f < 1 / 2 then f
         else if 1 / 2 < q - of_int f then f + 1
         else if even f then f else f + 1)"

definition ulpExponent :: "rat \<Rightarrow> int" where
  "ulpExponent x = max (floorLog2 \<bar>x\<bar>) (- 1022) - 52"

definition toDouble :: "rat \<Rightarrow> rat" where
  "toDouble x =
     (if x = 0 then 0
      else of_int (roundHalfEven (x / 2 powi ulpExponent x)) * 2 powi ulpExponent x)"

definition isDouble :: "rat \<Rightarrow> bool" where
  "isDouble x = (toDouble x = x)"

section \<open>Numbers as text\<close>

definition digitChar :: "nat \<Rightarrow> char" where
  "digitChar d = ''0123456789'' ! d"

fun showNat :: "nat \<Rightarrow> string" where
  "showNat n = (if n < 10 then [digitChar n] else showNat (n div 10) @ [digitChar (n mod 10)])"

declare showNat.simps [simp del]

text \<open>The text of an integer inside a template literal.\<close>

definition showInt :: "int \<Rightarrow> string" where
  "showInt i = (if i < 0 then ''-'' @ showNat (nat (- i)) else showNat (nat i))"

definition isDigit :: "char \<Rightarrow> bool" where
  "isDigit c = (c \<in> set ''0123456789'')"

section \<open>Sorting by creation date\<close>

text \<open>
  \<open>Array.prototype.sort\<close> with a comparison function is a stable sort: an element goes
  before another when the comparison is negative, and elements that compare equal keep
  their order. The function \<open>tm\<close> stands for \<open>s => new Date(s).getTime()\<close> on the
  timestamps that \<open>toISOString\<close> wrote.
\<close>

fun insertCompare :: "('a \<Rightarrow> 'a \<Rightarrow> int) \<Rightarrow> 'a \<Rightarrow> 'a list \<Rightarrow> 'a list" where
  "insertCompare cmp x [] = [x]"
| "insertCompare cmp x (y # ys) =
     (if cmp x y \<le> 0 then x # y # ys else y # insertCompare cmp x ys)"

definition arraySort :: "('a \<Rightarrow> 'a \<Rightarrow> int) \<Rightarrow> 'a list \<Rightarrow> 'a list" where
  "arraySort cmp xs = foldr (insertCompare cmp) xs []"

text \<open>\<open>(a, b) => new Date(b.createdAt).getTime() - new Date(a.createdAt).getTime()\<close>\<close>

definition newestFirst :: "(string \<Rightarrow> int) \<Rightarrow> Order \<Rightarrow> Order \<Rightarrow> int" where
  "newestFirst tm a b = tm (createdAt b) - tm (createdAt a)"

section \<open>Admin dashboard (admin/dashboard/page.tsx)\<close>

text \<open>The page: the shared store and the React state \<open>orders\<close>.\<close>

record AdminPage =
  storage :: LocalStorage
  orders :: "Order list"

text \<open>
  \<open>generateTrackingNumber\<close>; \<open>r\<close> is the value of \<open>Math.random()\<close>, a double in
  \<open>[0, 1)\<close>. The product and the sum are each rounded to a double, \<open>Math.floor\<close>
  takes the integer below, and the template literal writes its decimal digits.
\<close>

definition generateTrackingNumber :: "number \<Rightarrow> string" where
  "generateTrackingNumber r =
     ''ST'' @ showInt \<lfloor>toDouble (10000000 + toDouble (r * 90000000))\<rfloor>"

definition markAsProcessing :: "(string \<Rightarrow> int) \<Rightarrow> string \<Rightarrow> AdminPage \<Rightarrow> AdminPage \<times> signal" where
  "markAsProcessing tm orderId pg =
     (case allOrders (storage pg) of
        Absent \<Rightarrow> (pg, Silent)
      | Malformed \<Rightarrow> (pg, Caught ''Error updating order status'')
      | Stored os \<Rightarrow>
          (let updatedOrders =
                 map (\<lambda>order. if order_id order = orderId
                                then order\<lparr>order_status := ''processing''\<rparr>
                                else order) os
           in (pg\<lparr>storage := (storage pg)\<lparr>allOrders := Stored updatedOrders\<rparr>,
                   orders := arraySort (newestFirst tm) updatedOrders\<rparr>,
               Alert (''Order '' @ orderId @ '' marked as processing''))))"

definition markAsShipped :: "(string \<Rightarrow> int) \<Rightarrow> number \<Rightarrow> string \<Rightarrow> AdminPage \<Rightarrow> AdminPage \<times> signal" where
  "markAsShipped tm r orderId pg =
     (case allOrders (storage pg) of
        Absent \<Rightarrow> (pg, Silent)
      | Malformed \<Rightarrow> (pg, Caught ''Error updating order status'')
      | Stored os \<Rightarrow>
          (let trackNo = generateTrackingNumber r;
               updatedOrders =
                 map (\<lambda>order. if order_id order = orderId
                                then order\<lparr>order_status := ''shipped'',
                                           trackingNumber := Some trackNo\<rparr>
                                else order) os
           in (pg\<lparr>storage := (storage pg)\<lparr>allOrders := Stored updatedOrders\<rparr>,
                   orders := arraySort (newestFirst tm) updatedOrders\<rparr>,
               Alert (''Order '' @ orderId @ '' marked as shipped with tracking number: ''
                        @ trackNo))))"

text \<open>
  \<open>getOrderActions\<close>: the button that the table offers for an order, by its status.
\<close>

datatype action = MarkProcessing string | MarkShipped string

definition getOrderActions :: "Order \<Rightarrow> action option" where
  "getOrderActions order =
     (if order_status order = ''awaiting_payment'' then Some (MarkProcessing (order_id order))
      else if order_status order = ''processing'' then Some (MarkShipped (order_id order))
      else None)"

text \<open>The orders that a handler left under the key \<open>allOrders\<close>.\<close>

definition persisted :: "AdminPage \<times> signal \<Rightarrow> Order list slot" where
  "persisted res = allOrders (storage (fst res))"

text \<open>\<open>loadOrders\<close>: what the page shows after it has read the store.\<close>

definition loadOrders :: "(string \<Rightarrow> int) \<Rightarrow> AdminPage \<Rightarrow> AdminPage" where
  "loadOrders tm pg =
     (case allOrders (storage pg) of
        Absent \<Rightarrow> pg\<lparr>orders := []\<rparr>
      | Malformed \<Rightarrow> pg\<lparr>orders := []\<rparr>
      | Stored os \<Rightarrow> pg\<lparr>orders := arraySort (newestFirst tm) os\<rparr>)"

text \<open>
  The \<open>onClick\<close> handlers of the two buttons: \<open>() => markAsProcessing(order.id)\<close> and
  \<open>() => markAsShipped(order.id)\<close>; \<open>r\<close> is the draw of \<open>Math.random()\<close> of that call.
\<close>

fun onClick :: "(string \<Rightarrow> int) \<Rightarrow> number \<Rightarrow> action \<Rightarrow> AdminPage \<Rightarrow> AdminPage \<times> signal" where
  "onClick tm r (MarkProcessing orderId) pg = markAsProcessing tm orderId pg"
| "onClick tm r (MarkShipped orderId) pg = markAsShipped tm r orderId pg"

text \<open>
  A session of the admin page: the page loads the orders, then the admin presses, any
  number of times, the button that the table offers in one of the rows it shows.
\<close>

inductive adminSession :: "(string \<Rightarrow> int) \<Rightarrow> AdminPage \<Rightarrow> AdminPage \<Rightarrow> bool"
  for tm :: "string \<Rightarrow> int" and pg0 :: AdminPage where
  loaded: "adminSession tm pg0 (loadOrders tm pg0)"
| pressed: "adminSession tm pg0 pg \<Longrightarrow> order \<in> set (orders pg) \<Longrightarrow>
            getOrderActions order = Some a \<Longrightarrow>
            adminSession tm pg0 (fst (onClick tm r a pg))"

text \<open>One step of the status progression \<open>awaiting_payment \<rightarrow> processing \<rightarrow> shipped\<close>.\<close>

definition nextStatus :: "string \<Rightarrow> string \<Rightarrow> bool" where
  "nextStatus s s' =
     ((s = ''awaiting_payment'' \<and> s' = ''processing'') \<or>
      (s = ''processing'' \<and> s' = ''shipped''))"

section \<open>Patient dashboard (dashboard/page.tsx)\<close>

text \<open>\<open>addToCart\<close>: the new value of the React state \<open>cart\<close> and the \<open>alert\<close>.\<close>

definition addToCart :: "Prescription \<Rightarrow> CartItem list \<Rightarrow> CartItem list \<times> signal" where
  "addToCart p cart =
     (if rx_status p \<noteq> Active \<or> repeats p = 0
      then (cart, Alert ''This prescription cannot be ordered'')
      else case find (\<lambda>item. rx_id (prescription item) = rx_id p) cart of
             Some existingItem \<Rightarrow>
               (map (\<lambda>item. if rx_id (prescription item) = rx_id p
                              then item\<lparr>quantitySelected := quantitySelected item + quantity p\<rparr>
                              else item) cart,
                Alert ''Quantity updated in cart'')
           | None \<Rightarrow>
               (cart @ [\<lparr>prescription = p, quantitySelected = quantity p\<rparr>],
                Alert ''Added to cart!''))"

definition cartTotal :: "CartItem list \<Rightarrow> number" where
  "cartTotal cart =
     foldl (\<lambda>total item. total + price (prescription item) * quantitySelected item) 0 cart"

definition proceedToCheckout :: "CartItem list \<Rightarrow> LocalStorage \<Rightarrow> LocalStorage \<times> signal" where
  "proceedToCheckout cart ls =
     (if length cart = 0 then (ls, Alert ''Your cart is empty'')
      else (ls\<lparr>cartItems := Stored cart\<rparr>, Navigate ''/checkout''))"

text \<open>The first entry of \<open>mockPrescriptions\<close>.\<close>

definition rx001 :: Prescription where
  "rx001 = \<lparr>rx_id = ''rx-001'', rx_name = ''Paracetamol'', strength = ''500mg'',
             quantity = 20, repeats = 3, prescribedDate = ''2024-01-15'',
             expiryDate = ''2024-07-15'', rx_status = Active,
             interval = ''As needed, up to 4 times daily'', price = 25 / 2\<rparr>"

text \<open>
  \<open>loadPatientOrders\<close> of \<open>MyOrdersSection\<close>: the value given to \<open>setPatientOrders\<close>.
\<close>

definition loadPatientOrders :: "(string \<Rightarrow> int) \<Rightarrow> string \<Rightarrow> LocalStorage \<Rightarrow> Order list" where
  "loadPatientOrders tm email ls =
     (case allOrders ls of
        Absent \<Rightarrow> []
      | Malformed \<Rightarrow> []
      | Stored os \<Rightarrow>
          arraySort (newestFirst tm) (filter (\<lambda>order. patientEmail order = Some email) os))"

section \<open>Checkout (checkout/page.tsx)\<close>

text \<open>
  The effect that runs when the page mounts: the new React state \<open>cartItems\<close> (initially
  the empty list) and the redirect, if any.
\<close>

definition checkoutMount :: "LocalStorage \<Rightarrow> CartItem list \<times> signal" where
  "checkoutMount ls =
     (if isAuthenticated ls \<noteq> Some ''true'' then ([], Navigate ''/login'')
      else case cartItems ls of
             Stored parsedCart \<Rightarrow> (parsedCart, Silent)
           | Malformed \<Rightarrow> ([], Navigate ''/dashboard'')
           | Absent \<Rightarrow> ([], Navigate ''/dashboard''))"

definition checkoutSubtotal :: "CartItem list \<Rightarrow> number" where
  "checkoutSubtotal cartState =
     foldl (\<lambda>total item. total + price (prescription item) * quantitySelected item) 0 cartState"

definition flatShippingFee :: number where
  "flatShippingFee = 33"

definition checkoutTotal :: "CartItem list \<Rightarrow> number" where
  "checkoutTotal cartState = checkoutSubtotal cartState + flatShippingFee"

text \<open>
  The order object that \<open>handlePayment\<close> builds; \<open>now\<close> is \<open>Date.now()\<close> and \<open>stamp\<close> is
  \<open>new Date().toISOString()\<close>.
\<close>

definition newOrder :: "int \<Rightarrow> string \<Rightarrow> CartItem list \<Rightarrow> LocalStorage \<Rightarrow> Order" where
  "newOrder now stamp cartState ls =
     \<lparr>order_id = ''MOCA-'' @ showInt now,
      patientEmail = userEmail ls,
      items = cartState,
      subtotal = checkoutSubtotal cartState,
      shippingFee = flatShippingFee,
      order_total = checkoutTotal cartState,
      order_status = ''awaiting_payment'',
      createdAt = stamp,
      paymentMethod = ''Power Board'',
      shippingAddress = ''Mock Address'',
      trackingNumber = None\<rparr>"

definition handlePayment :: "int \<Rightarrow> string \<Rightarrow> CartItem list \<Rightarrow> LocalStorage \<Rightarrow> LocalStorage \<times> signal" where
  "handlePayment now stamp cartState ls =
     (let order = newOrder now stamp cartState ls
      in case allOrders ls of
           Malformed \<Rightarrow> (ls, Caught ''Payment failed. Please try again.'')
         | Absent \<Rightarrow>
             (ls\<lparr>allOrders := Stored ([] @ [order]), currentOrder := Some order,
                  cartItems := Absent\<rparr>, Navigate ''/order-success'')
         | Stored os \<Rightarrow>
             (ls\<lparr>allOrders := Stored (os @ [order]), currentOrder := Some order,
                  cartItems := Absent\<rparr>, Navigate ''/order-success''))"

section \<open>Predicates of the statements\<close>

text \<open>The monetary fields of an order, and the equation that ties them.\<close>

definition monetary :: "Order \<Rightarrow> number \<times> number \<times> number" where
  "monetary order = (subtotal order, shippingFee order, order_total order)"

definition totalConsistent :: "Order \<Rightarrow> bool" where
  "totalConsistent order = (order_total order = subtotal order + shippingFee order)"

section \<open>Sample data\<close>

text \<open>
  The digits of a timestamp read as one number. On the fixed-width UTC text that
  \<open>toISOString\<close> writes, it orders timestamps as \<open>getTime\<close> does; the examples use it
  for \<open>tm\<close>.
\<close>

definition digitValue :: "char \<Rightarrow> int" where
  "digitValue c = int (length (takeWhile (\<lambda>d. d \<noteq> c) ''0123456789''))"

definition isoDigits :: "string \<Rightarrow> int" where
  "isoDigits s = foldl (\<lambda>acc c. if isDigit c then 10 * acc + digitValue c else acc) 0 s"

text \<open>Two creation times, as \<open>toISOString\<close> writes them.\<close>

definition march1 :: string where
  "march1 = ''2024-03-01T09:00:00.000Z''"

definition march2 :: string where
  "march2 = ''2024-03-02T09:00:00.000Z''"

text \<open>
  An order as \<open>handlePayment\<close> writes it for an empty cart, with a given id, status and
  creation time; a store that holds a collection; an admin page over it.
\<close>

definition orderFixture :: "string \<Rightarrow> string \<Rightarrow> string \<Rightarrow> Order" where
  "orderFixture k s t =
     \<lparr>order_id = k, patientEmail = Some ''pat@moca.test'', items = [], subtotal = 0,
      shippingFee = 33, order_total = 33, order_status = s, createdAt = t,
      paymentMethod = ''Power Board'', shippingAddress = ''Mock Address'',
      trackingNumber = None\<rparr>"

definition storeFixture :: "Order list slot \<Rightarrow> LocalStorage" where
  "storeFixture sl =
     \<lparr>isAuthenticated = Some ''true'', userEmail = Some ''pat@moca.test'',
      cartItems = Absent, allOrders = sl, currentOrder = None\<rparr>"

definition pageFixture :: "Order list \<Rightarrow> AdminPage" where
  "pageFixture os = \<lparr>storage = storeFixture (Stored os), orders = []\<rparr>"

text \<open>
  The double nearest to 0.7, which is what the literal \<open>0.7\<close> denotes: a draw at which
  both roundings of \<open>generateTrackingNumber\<close> matter.
\<close>

definition draw07 :: number where
  "draw07 = 3152519739159347 / 4503599627370496"

text \<open>The third entry of \<open>mockPrescriptions\<close>: no repeats left.\<close>

definition rx003 :: Prescription where
  "rx003 = \<lparr>rx_id = ''rx-003'', rx_name = ''Vitamin D'', strength = ''1000IU'',
             quantity = 60, repeats = 0, prescribedDate = ''2023-12-01'',
             expiryDate = ''2024-06-01'', rx_status = Used,
             interval = ''Once daily'', price = 89 / 10\<rparr>"

section \<open>Auxiliary facts\<close>

subsection \<open>The sort\<close>

lemma insertCompare_newestFirst:
  "insertCompare (newestFirst tm) x ys = insort_key (\<lambda>order. - tm (createdAt order)) x ys"
  by (induction ys) (simp_all add: newestFirst_def)

lemma arraySort_newestFirst:
  "arraySort (newestFirst tm) xs = sort_key (\<lambda>order. - tm (createdAt order)) xs"
proof -
  have "insertCompare (newestFirst tm) = insort_key (\<lambda>order. - tm (createdAt order))"
    by (intro ext) (rule insertCompare_newestFirst)
  then show ?thesis
    by (simp add: arraySort_def sort_key_def)
qed

lemma set_arraySort: "set (arraySort (newestFirst tm) xs) = set xs"
  by (simp add: arraySort_newestFirst)

subsection \<open>Decimal text\<close>

lemma isDigit_digitChar: "d < 10 \<Longrightarrow> isDigit (digitChar d)"
proof -
  assume "d < 10"
  then have "d \<in> {0, 1, 2, 3, 4, 5, 6, 7, 8, 9}" by auto
  then show ?thesis
    by (auto simp: isDigit_def digitChar_def)
qed

lemma showNat_digits: "list_all isDigit (showNat n)"
proof (induction n rule: showNat.induct)
  case (1 n)
  show ?case
  proof (cases "n < 10")
    case True
    then show ?thesis
      by (subst showNat.simps) (simp add: isDigit_digitChar)
  next
    case False
    then have "list_all isDigit (showNat (n div 10))" by (rule "1.IH")
    moreover have "isDigit (digitChar (n mod 10))" by (simp add: isDigit_digitChar)
    ultimately show ?thesis
      using False by (subst showNat.simps) simp
  qed
qed

lemma showNat_length: "10 ^ k \<le> n \<Longrightarrow> n < 10 ^ Suc k \<Longrightarrow> length (showNat n) = Suc k"
proof (induction k arbitrary: n)
  case 0
  then show ?case by (subst showNat.simps) simp
next
  case (Suc k)
  from Suc.prems have ge: "10 \<le> n"
    by (metis One_nat_def le_trans one_le_numeral one_le_power power_Suc power_one_right
        mult.right_neutral mult_le_mono2)
  have "10 ^ k \<le> n div 10" using Suc.prems(1) by (simp add: less_eq_div_iff_mult_less_eq)
  moreover have "n div 10 < 10 ^ Suc k" using Suc.prems(2) by (simp add: div_less_iff_less_mult mult.commute)
  ultimately have "length (showNat (n div 10)) = Suc k" by (rule Suc.IH)
  then show ?case using ge by (subst showNat.simps) simp
qed

subsection \<open>Rounding to doubles\<close>

lemma floorLog2_ge1:
  fixes x :: rat
  assumes "1 \<le> x"
  shows "2 powi floorLog2 x \<le> x \<and> x < 2 powi (floorLog2 x + 1)"
proof -
  let ?a = "\<lfloor>x\<rfloor>"
  have a: "0 < ?a" using assms by simp
  have bl: "1 \<le> bitlen ?a"
    using a bitlen_eq_zero_iff[of ?a] bitlen_nonneg[of ?a] by linarith
  define n where "n = nat (bitlen ?a - 1)"
  have e: "floorLog2 x = int n" using assms bl by (simp add: floorLog2_def n_def)
  have n1: "nat (bitlen ?a) = Suc n" using bl by (simp add: n_def)
  from bitlen_bounds[OF a] have lo: "2 ^ n \<le> ?a" and hi: "?a < 2 ^ Suc n"
    by (simp_all add: n_def[symmetric] n1)
  have "(of_int (2 ^ n) :: rat) \<le> of_int ?a" using lo by (simp only: of_int_le_iff)
  also have "\<dots> \<le> x" by simp
  finally have l: "(2::rat) ^ n \<le> x" by simp
  have "?a + 1 \<le> 2 ^ Suc n" using hi by simp
  then have "(of_int (?a + 1) :: rat) \<le> of_int (2 ^ Suc n)" by (simp only: of_int_le_iff)
  moreover have "x < of_int (?a + 1)" by linarith
  ultimately have h: "x < (2::rat) ^ Suc n" by simp
  have "int n + 1 = int (Suc n)" by simp
  then show ?thesis
    using l h unfolding e by (simp only: power_int_of_nat) 
qed

lemma floorLog2_lt1:
  fixes x :: rat
  assumes "0 < x" and "x < 1"
  shows "2 powi floorLog2 x \<le> x \<and> x < 2 powi (floorLog2 x + 1)"
proof -
  let ?c = "\<lceil>1 / x\<rceil>"
  have inv: "1 < 1 / x" using assms by simp
  then have c2: "2 \<le> ?c" by (simp add: le_ceiling_iff) 
  let ?b = "?c - 1"
  have b: "0 < ?b" using c2 by simp
  have bl: "1 \<le> bitlen ?b"
    using b bitlen_eq_zero_iff[of ?b] bitlen_nonneg[of ?b] by linarith
  define n where "n = nat (bitlen ?b - 1)"
  have m: "bitlen ?b = int (Suc n)" using bl by (simp add: n_def)
  have e: "floorLog2 x = - int (Suc n)" using assms m by (simp add: floorLog2_def)
  have n0: "nat (bitlen ?b - 1) = n" by (simp add: n_def)
  have n1: "nat (bitlen ?b) = Suc n" unfolding m by (rule nat_int)
  from bitlen_bounds[OF b] have lo: "2 ^ n \<le> ?b" and hi: "?b < 2 ^ Suc n"
    unfolding n0 n1 by blast+
  have "?c \<le> 2 ^ Suc n" using hi by simp
  then have "(of_int ?c :: rat) \<le> of_int (2 ^ Suc n)" by (simp only: of_int_le_iff)
  then have cc: "(of_int ?c :: rat) \<le> 2 ^ Suc n" by simp
  have "1 / x \<le> of_int ?c" by (rule le_of_int_ceiling)
  from this cc have "1 / x \<le> (2::rat) ^ Suc n" by (rule order_trans)
  then have l: "1 / (2::rat) ^ Suc n \<le> x"
    using assms(1) by (simp add: field_simps)
  have "(of_int (2 ^ n) :: rat) \<le> of_int ?b" using lo by (simp only: of_int_le_iff)
  then have bb: "(2::rat) ^ n \<le> of_int ?b" by simp
  have "of_int ?b < 1 / x" using ceiling_correct[of "1 / x"] by simp
  with bb have "(2::rat) ^ n < 1 / x" by (rule le_less_trans)
  then have h: "x < 1 / (2::rat) ^ n"
    using assms(1) by (simp add: field_simps)
  have p1: "(2::rat) powi (- int (Suc n)) = 1 / 2 ^ Suc n"
    by (simp only: power_int_minus power_int_of_nat inverse_eq_divide)
  have "- int (Suc n) + 1 = - int n" by simp
  then have p2: "(2::rat) powi (- int (Suc n) + 1) = 1 / 2 ^ n"
    by (simp only: power_int_minus power_int_of_nat inverse_eq_divide)
  show ?thesis
    unfolding e p1 p2 using l h by simp
qed

lemma floorLog2_bounds:
  fixes x :: rat
  assumes "0 < x"
  shows "2 powi floorLog2 x \<le> x" and "x < 2 powi (floorLog2 x + 1)"
proof -
  have "2 powi floorLog2 x \<le> x \<and> x < 2 powi (floorLog2 x + 1)"
  proof (cases "1 \<le> x")
    case True
    then show ?thesis by (rule floorLog2_ge1)
  next
    case False
    then have "x < 1" by simp
    with assms show ?thesis by (rule floorLog2_lt1)
  qed
  then show "2 powi floorLog2 x \<le> x" and "x < 2 powi (floorLog2 x + 1)" by blast+
qed

lemma floorLog2_less:
  fixes x :: rat
  assumes "0 < x" and "x < 2 powi j"
  shows "floorLog2 x < j"
proof (rule ccontr)
  assume "\<not> floorLog2 x < j"
  then have "j \<le> floorLog2 x" by simp
  then have "(2::rat) powi j \<le> 2 powi floorLog2 x" by (simp add: power_int_increasing)
  with floorLog2_bounds(1)[OF assms(1)] assms(2) show False by simp
qed

lemma floorLog2_ge:
  fixes x :: rat
  assumes "0 < x" and "2 powi j \<le> x"
  shows "j \<le> floorLog2 x"
proof (rule ccontr)
  assume "\<not> j \<le> floorLog2 x"
  then have "floorLog2 x + 1 \<le> j" by simp
  then have "(2::rat) powi (floorLog2 x + 1) \<le> 2 powi j" by (simp add: power_int_increasing)
  with floorLog2_bounds(2)[OF assms(1)] assms(2) show False by simp
qed

lemma roundHalfEven_le:
  "q \<le> of_int m \<Longrightarrow> roundHalfEven q \<le> m"
proof -
  assume a: "q \<le> of_int m"
  have f: "\<lfloor>q\<rfloor> \<le> m" using a by (simp add: floor_le_iff)
  show ?thesis
  proof (cases "q = of_int \<lfloor>q\<rfloor>")
    case True
    then have "q - of_int \<lfloor>q\<rfloor> < 1 / 2" by simp
    then show ?thesis using f by (simp add: roundHalfEven_def Let_def)
  next
    case False
    then have "of_int \<lfloor>q\<rfloor> < q" using of_int_floor_le[of q] by linarith
    then have "of_int \<lfloor>q\<rfloor> < (of_int m :: rat)" using a by linarith
    then have "\<lfloor>q\<rfloor> < m" by (simp only: of_int_less_iff)
    then show ?thesis by (simp add: roundHalfEven_def Let_def)
  qed
qed

lemma roundHalfEven_ge:
  "of_int m \<le> q \<Longrightarrow> m \<le> roundHalfEven q"
proof -
  assume a: "of_int m \<le> q"
  then have "m \<le> \<lfloor>q\<rfloor>" by (simp add: le_floor_iff)
  then show ?thesis by (simp add: roundHalfEven_def Let_def)
qed

lemma roundHalfEven_upper: "of_int (roundHalfEven q) \<le> q + 1 / 2"
proof -
  have "q < of_int \<lfloor>q\<rfloor> + 1" by linarith
  moreover have "of_int \<lfloor>q\<rfloor> \<le> q" by simp
  ultimately show ?thesis
    unfolding roundHalfEven_def Let_def by (simp split: if_splits) linarith
qed

lemma grid_coarser:
  assumes "k \<le> j"
  shows "(of_int m :: rat) * 2 powi j = of_int (m * 2 ^ nat (j - k)) * 2 powi k"
proof -
  have "j = int (nat (j - k)) + k" using assms by simp
  then have "(2::rat) powi j = 2 powi (int (nat (j - k)) + k)" by simp
  also have "\<dots> = 2 powi int (nat (j - k)) * 2 powi k" by (simp add: power_int_add)
  also have "\<dots> = 2 ^ nat (j - k) * 2 powi k" by (simp only: power_int_of_nat)
  finally show ?thesis by simp
qed

lemma toDouble_le_grid:
  assumes "x \<noteq> 0" and "x \<le> of_int m * 2 powi j" and "ulpExponent x \<le> j"
  shows "toDouble x \<le> of_int m * 2 powi j"
proof -
  define k where "k = ulpExponent x"
  define m' where "m' = m * 2 ^ nat (j - k)"
  have pos: "(0::rat) < 2 powi k" by simp
  have g: "(of_int m :: rat) * 2 powi j = of_int m' * 2 powi k"
    unfolding m'_def using assms(3) by (intro grid_coarser) (simp add: k_def)
  have "x / 2 powi k \<le> of_int m'"
    using assms(2) pos unfolding g by (simp add: field_simps)
  then have "roundHalfEven (x / 2 powi k) \<le> m'" by (rule roundHalfEven_le)
  then have "(of_int (roundHalfEven (x / 2 powi k)) :: rat) \<le> of_int m'"
    by (simp only: of_int_le_iff)
  then have "of_int (roundHalfEven (x / 2 powi k)) * 2 powi k \<le> (of_int m' :: rat) * 2 powi k"
    using pos by (simp only: mult_le_cancel_right_pos)
  then show ?thesis
    using assms(1) unfolding g by (simp add: toDouble_def k_def)
qed

lemma toDouble_ge_grid:
  assumes "x \<noteq> 0" and "of_int m * 2 powi j \<le> x" and "ulpExponent x \<le> j"
  shows "of_int m * 2 powi j \<le> toDouble x"
proof -
  define k where "k = ulpExponent x"
  define m' where "m' = m * 2 ^ nat (j - k)"
  have pos: "(0::rat) < 2 powi k" by simp
  have g: "(of_int m :: rat) * 2 powi j = of_int m' * 2 powi k"
    unfolding m'_def using assms(3) by (intro grid_coarser) (simp add: k_def)
  have "of_int m' \<le> x / 2 powi k"
    using assms(2) pos unfolding g by (simp add: field_simps)
  then have "m' \<le> roundHalfEven (x / 2 powi k)" by (rule roundHalfEven_ge)
  then have "(of_int m' :: rat) \<le> of_int (roundHalfEven (x / 2 powi k))"
    by (simp only: of_int_le_iff)
  then have "(of_int m' :: rat) * 2 powi k \<le> of_int (roundHalfEven (x / 2 powi k)) * 2 powi k"
    using pos by (simp only: mult_le_cancel_right_pos)
  then show ?thesis
    using assms(1) unfolding g by (simp add: toDouble_def k_def)
qed

lemma ulpExponent_below:
  fixes x :: rat
  assumes "0 < x" and "x < 2 powi j" and "- 1021 \<le> j"
  shows "ulpExponent x \<le> j - 53"
proof -
  have "floorLog2 x < j" using assms(1,2) by (rule floorLog2_less)
  then show ?thesis using assms(1,3) by (simp add: ulpExponent_def)
qed

lemma ulpExponent_between:
  fixes x :: rat
  assumes "2 powi j \<le> x" and "x < 2 powi (j + 1)" and "- 1022 \<le> j"
  shows "ulpExponent x = j - 52"
proof -
  have pos: "0 < x" using assms(1) by (rule less_le_trans[rotated]) simp
  have "floorLog2 x < j + 1" using pos assms(2) by (rule floorLog2_less)
  moreover have "j \<le> floorLog2 x" using pos assms(1) by (rule floorLog2_ge)
  ultimately show ?thesis using pos assms(3) by (simp add: ulpExponent_def)
qed

lemma double_below_one:
  assumes "isDouble r" and "r < 1"
  shows "r \<le> 1 - 1 / 2 ^ 53"
proof (cases "r < 1 / 2")
  case True
  then show ?thesis by simp
next
  case False
  then have lo: "2 powi (- 1) \<le> r" by simp
  have hi: "r < 2 powi (- 1 + 1)" using assms(2) by simp
  have k: "ulpExponent r = - 53"
    using ulpExponent_between[OF lo hi] by simp
  have nz: "r \<noteq> 0" using False by auto
  define n where "n = roundHalfEven (r / 2 powi (- 53))"
  have r: "r = of_int n * 2 powi (- 53)"
    using assms(1) nz by (simp add: isDouble_def toDouble_def k n_def)
  then have "of_int n * 2 powi (- 53) < (1::rat)" using assms(2) by simp
  then have "(of_int n :: rat) < of_int (2 ^ 53)" by (simp add: field_simps)
  then have "n < 2 ^ 53" by (simp only: of_int_less_iff)
  then have "n \<le> 2 ^ 53 - 1" by simp
  then have "(of_int n :: rat) \<le> of_int (2 ^ 53 - 1)" by (simp only: of_int_le_iff)
  then show ?thesis by (subst r) (simp add: field_simps)
qed

lemma product_rounded:
  assumes "0 \<le> r" and "r \<le> 1 - 1 / 2 ^ 53"
  shows "0 \<le> toDouble (r * 90000000) \<and> toDouble (r * 90000000) \<le> 90000000 - 1 / 2 ^ 26"
proof (cases "r = 0")
  case True
  then show ?thesis by (simp add: toDouble_def)
next
  case False
  define x where "x = r * 90000000"
  have pos: "0 < x" using assms(1) False by (simp add: x_def)
  then have nz: "x \<noteq> 0" by simp
  have ub: "x \<le> 90000000 - 90000000 / 2 ^ 53" using assms(2) by (simp add: x_def)
  then have "x < 2 powi 27" by simp
  then have k26: "ulpExponent x \<le> - 26" using ulpExponent_below[OF pos, of 27] by simp
  have "of_int 0 * 2 powi (- 26) \<le> x" using pos by simp
  then have "of_int 0 * 2 powi (- 26) \<le> toDouble x" using nz k26 by (intro toDouble_ge_grid)
  then have lower: "0 \<le> toDouble x" by simp
  have grid: "(of_int 6039797759999999 :: rat) * 2 powi (- 26) = 90000000 - 1 / 2 ^ 26"
    by simp
  have upper: "toDouble x \<le> 90000000 - 1 / 2 ^ 26"
  proof (cases "x \<le> 90000000 - 1 / 2 ^ 26")
    case True
    then have "x \<le> of_int 6039797759999999 * 2 powi (- 26)" by (simp only: grid)
    then have "toDouble x \<le> of_int 6039797759999999 * 2 powi (- 26)"
      using nz k26 by (intro toDouble_le_grid)
    then show ?thesis by (simp only: grid)
  next
    case False
    then have "2 powi 26 \<le> x" by simp
    moreover have "x < 2 powi (26 + 1)" using ub by simp
    ultimately have k: "ulpExponent x = - 26" using ulpExponent_between[of 26 x] by simp
    define q where "q = x / 2 powi (- 26)"
    have "q \<le> 6039797760000000 - 90000000 / 2 ^ 27" using ub by (simp add: q_def)
    then have "q + 1 / 2 < 6039797760000000" by simp
    with roundHalfEven_upper[of q] have "(of_int (roundHalfEven q) :: rat) < of_int 6039797760000000"
      by simp
    then have "roundHalfEven q < 6039797760000000" by (simp only: of_int_less_iff)
    then have "roundHalfEven q \<le> 6039797759999999" by simp
    then have "(of_int (roundHalfEven q) :: rat) \<le> of_int 6039797759999999"
      by (simp only: of_int_le_iff)
    then have "of_int (roundHalfEven q) * 2 powi (- 26) \<le> (of_int 6039797759999999 :: rat) * 2 powi (- 26)"
      by (simp only: mult_le_cancel_right_pos[OF zero_less_power_int[OF zero_less_numeral]])
    then show ?thesis
      using nz unfolding grid by (simp add: toDouble_def k q_def)
  qed
  from lower upper show ?thesis by (simp only: x_def)
qed

lemma sum_rounded:
  assumes "0 \<le> p" and "p \<le> 90000000 - 1 / 2 ^ 26"
  shows "10000000 \<le> toDouble (10000000 + p) \<and> toDouble (10000000 + p) < 100000000"
proof -
  define y where "y = 10000000 + p"
  have lo: "10000000 \<le> y" and hi: "y \<le> 100000000 - 1 / 2 ^ 26"
    using assms by (simp_all add: y_def)
  have pos: "0 < y" and nz: "y \<noteq> 0" using lo by simp_all
  have "y < 2 powi 27" using hi by simp
  then have k26: "ulpExponent y \<le> - 26" using ulpExponent_below[OF pos, of 27] by simp
  then have k0: "ulpExponent y \<le> 0" by simp
  have "of_int 10000000 * 2 powi 0 \<le> y" using lo by simp
  then have "of_int 10000000 * 2 powi 0 \<le> toDouble y" using nz k0 by (intro toDouble_ge_grid)
  then have lower: "10000000 \<le> toDouble y" by simp
  have grid: "(of_int 6710886399999999 :: rat) * 2 powi (- 26) = 100000000 - 1 / 2 ^ 26"
    by simp
  have "y \<le> of_int 6710886399999999 * 2 powi (- 26)" using hi by (simp only: grid)
  then have "toDouble y \<le> of_int 6710886399999999 * 2 powi (- 26)"
    using nz k26 by (intro toDouble_le_grid)
  then have "toDouble y \<le> 100000000 - 1 / 2 ^ 26" by (simp only: grid)
  then have upper: "toDouble y < 100000000" by simp
  from lower upper show ?thesis by (simp only: y_def)
qed

lemma random_digits_range:
  assumes "isDouble r" and "0 \<le> r" and "r < 1"
  shows "10000000 \<le> \<lfloor>toDouble (10000000 + toDouble (r * 90000000))\<rfloor> \<and>
         \<lfloor>toDouble (10000000 + toDouble (r * 90000000))\<rfloor> \<le> 99999999"
proof -
  have "r \<le> 1 - 1 / 2 ^ 53" using assms(1,3) by (rule double_below_one)
  with assms(2) have p: "0 \<le> toDouble (r * 90000000) \<and>
      toDouble (r * 90000000) \<le> 90000000 - 1 / 2 ^ 26"
    by (rule product_rounded)
  then have s: "10000000 \<le> toDouble (10000000 + toDouble (r * 90000000)) \<and>
      toDouble (10000000 + toDouble (r * 90000000)) < 100000000"
    by (intro sum_rounded) simp_all
  then have "10000000 \<le> \<lfloor>toDouble (10000000 + toDouble (r * 90000000))\<rfloor>"
    by (simp add: le_floor_iff)
  moreover have "\<lfloor>toDouble (10000000 + toDouble (r * 90000000))\<rfloor> < 100000000"
    using s by (simp add: floor_less_iff)
  ultimately show ?thesis by simp
qed

subsection \<open>Monetary fields\<close>

lemma monetary_processing:
  "map monetary (map (\<lambda>order. if order_id order = orderId
                        then order\<lparr>order_status := ''processing''\<rparr> else order) os) =
   map monetary os"
  by (induction os) (simp_all add: monetary_def)

lemma monetary_shipped:
  "map monetary (map (\<lambda>order. if order_id order = orderId
                        then order\<lparr>order_status := ''shipped'', trackingNumber := Some t\<rparr>
                        else order) os) =
   map monetary os"
  by (induction os) (simp_all add: monetary_def)

lemma totalConsistent_by_monetary:
  "list_all totalConsistent os = list_all (\<lambda>m. snd (snd m) = fst m + fst (snd m)) (map monetary os)"
  by (induction os) (simp_all add: totalConsistent_def monetary_def)

lemma totalConsistent_monetary:
  "map monetary ps = map monetary os \<Longrightarrow> list_all totalConsistent os \<Longrightarrow> list_all totalConsistent ps"
  by (simp only: totalConsistent_by_monetary)

subsection \<open>Cart and checkout\<close>

lemma find_None_iff_ids:
  "find (\<lambda>item. rx_id (prescription item) = k) cart = None \<longleftrightarrow>
   k \<notin> (\<lambda>item. rx_id (prescription item)) ` set cart"
  by (induction cart) auto

lemma handlePayment_ok:
  assumes "allOrders ls \<noteq> Malformed"
  shows "handlePayment now stamp cartState ls =
           (ls\<lparr>allOrders := Stored ((case allOrders ls of Stored os \<Rightarrow> os | _ \<Rightarrow> [])
                                     @ [newOrder now stamp cartState ls]),
               currentOrder := Some (newOrder now stamp cartState ls),
               cartItems := Absent\<rparr>, Navigate ''/order-success'')"
proof (cases "allOrders ls")
  case Absent
  then show ?thesis by (simp add: handlePayment_def Let_def)
next
  case Malformed
  with assms show ?thesis by simp
next
  case (Stored os)
  then show ?thesis by (simp add: handlePayment_def Let_def)
qed

subsection \<open>Sessions of the admin page\<close>

lemma same_id_same_order:
  assumes "distinct (map order_id os)" and "x \<in> set os" and "y \<in> set os"
    and "order_id x = order_id y"
  shows "x = y"
proof -
  from assms(1) have "inj_on order_id (set os)" by (simp add: distinct_map)
  then show ?thesis using assms(2-4) by (auto dest: inj_onD)
qed

lemma offered_step:
  assumes "allOrders (storage pg) = Stored os" and "distinct (map order_id os)"
    and "order \<in> set os" and "getOrderActions order = Some a"
  shows "\<exists>os'. persisted (onClick tm r a pg) = Stored os' \<and>
           orders (fst (onClick tm r a pg)) = arraySort (newestFirst tm) os' \<and>
           map order_id os' = map order_id os \<and>
           (\<forall>i < length os.
              (os ! i = order \<longrightarrow>
                 order_id (os' ! i) = order_id order \<and>
                 nextStatus (order_status order) (order_status (os' ! i))) \<and>
              (os ! i \<noteq> order \<longrightarrow> os' ! i = os ! i))"
proof -
  have other: "order_id (os ! i) \<noteq> order_id order" if "i < length os" "os ! i \<noteq> order" for i
    using same_id_same_order[OF assms(2) _ assms(3), of "os ! i"] that by auto
  consider (p) "order_status order = ''awaiting_payment''" "a = MarkProcessing (order_id order)"
    | (s) "order_status order = ''processing''" "a = MarkShipped (order_id order)"
    using assms(4) by (auto simp: getOrderActions_def split: if_splits)
  then show ?thesis
  proof cases
    case p
    let ?us = "map (\<lambda>x. if order_id x = order_id order
                        then x\<lparr>order_status := ''processing''\<rparr> else x) os"
    have st: "persisted (onClick tm r a pg) = Stored ?us"
      and sh: "orders (fst (onClick tm r a pg)) = arraySort (newestFirst tm) ?us"
      using assms(1) p(2) by (simp_all add: persisted_def markAsProcessing_def Let_def)
    have ids: "map order_id ?us = map order_id os" by (induction os) simp_all
    have each: "(os ! i = order \<longrightarrow>
                 order_id (?us ! i) = order_id order \<and>
                 nextStatus (order_status order) (order_status (?us ! i))) \<and>
              (os ! i \<noteq> order \<longrightarrow> ?us ! i = os ! i)" if "i < length os" for i
      using that other[OF that] p(1) by (simp add: nextStatus_def)
    show ?thesis
      apply (rule exI[of _ ?us])
      using st sh ids each by blast
  next
    case s
    let ?us = "map (\<lambda>x. if order_id x = order_id order
                        then x\<lparr>order_status := ''shipped'',
                               trackingNumber := Some (generateTrackingNumber r)\<rparr>
                        else x) os"
    have st: "persisted (onClick tm r a pg) = Stored ?us"
      and sh: "orders (fst (onClick tm r a pg)) = arraySort (newestFirst tm) ?us"
      using assms(1) s(2) by (simp_all add: persisted_def markAsShipped_def Let_def)
    have ids: "map order_id ?us = map order_id os" by (induction os) simp_all
    have each: "(os ! i = order \<longrightarrow>
                 order_id (?us ! i) = order_id order \<and>
                 nextStatus (order_status order) (order_status (?us ! i))) \<and>
              (os ! i \<noteq> order \<longrightarrow> ?us ! i = os ! i)" if "i < length os" for i
      using that other[OF that] s(1) by (simp add: nextStatus_def)
    show ?thesis
      apply (rule exI[of _ ?us])
      using st sh ids each by blast
  qed
qed

lemma session_forward:
  assumes "adminSession tm pg0 pg" and "allOrders (storage pg0) = Stored os0"
    and "distinct (map order_id os0)"
  shows "\<exists>os. allOrders (storage pg) = Stored os \<and> map order_id os = map order_id os0 \<and>
              set (orders pg) = set os \<and>
              (\<forall>i < length os0.
                 nextStatus\<^sup>*\<^sup>* (order_status (os0 ! i)) (order_status (os ! i)))"
  using assms
proof (induction rule: adminSession.induct)
  case loaded
  then show ?case by (simp add: loadOrders_def set_arraySort)
next
  case (pressed pg order a r)
  then obtain os where os: "allOrders (storage pg) = Stored os"
    "map order_id os = map order_id os0" "set (orders pg) = set os"
    and fw: "\<And>i. i < length os0 \<Longrightarrow>
               nextStatus\<^sup>*\<^sup>* (order_status (os0 ! i)) (order_status (os ! i))"
    by blast
  have len: "length os = length os0" using os(2) by (rule map_eq_imp_length_eq)
  have dist: "distinct (map order_id os)" using pressed.prems(2) os(2) by simp
  have mem: "order \<in> set os" using pressed.hyps(2) os(3) by simp
  from offered_step[OF os(1) dist mem pressed.hyps(3), of tm r] obtain os' where
    st: "persisted (onClick tm r a pg) = Stored os'" and
    sh: "orders (fst (onClick tm r a pg)) = arraySort (newestFirst tm) os'" and
    ids: "map order_id os' = map order_id os" and
    each: "\<And>i. i < length os \<Longrightarrow>
             (os ! i = order \<longrightarrow> nextStatus (order_status order) (order_status (os' ! i))) \<and>
             (os ! i \<noteq> order \<longrightarrow> os' ! i = os ! i)"
    by blast
  have "nextStatus\<^sup>*\<^sup>* (order_status (os0 ! i)) (order_status (os' ! i))"
    if i: "i < length os0" for i
  proof (cases "os ! i = order")
    case True
    then have "nextStatus (order_status (os ! i)) (order_status (os' ! i))"
      using each[of i] i len by simp
    with fw[OF i] show ?thesis by (rule rtranclp.rtrancl_into_rtrancl)
  next
    case False
    then have "os' ! i = os ! i" using each[of i] i len by simp
    with fw[OF i] show ?thesis by simp
  qed
  then show ?case
    using st sh ids os(2) by (simp add: persisted_def set_arraySort)
qed

subsection \<open>Evaluation of the sample data\<close>

lemma iso1: "isoDigits march1 = 20240301090000000"
  by (simp add: march1_def isoDigits_def isDigit_def digitValue_def)

lemma iso2: "isoDigits march2 = 20240302090000000"
  by (simp add: march2_def isoDigits_def isDigit_def digitValue_def)

lemma half_digits: "\<lfloor>toDouble (10000000 + toDouble (1 / 2 * 90000000))\<rfloor> = 55000000"
  by code_simp

lemma track_half: "generateTrackingNumber (1 / 2) = ''ST55000000''"
  unfolding generateTrackingNumber_def half_digits
  by (simp add: showInt_def showNat.simps digitChar_def)

lemma draw07_double: "isDouble draw07"
  by code_simp

lemma draw07_digits: "\<lfloor>toDouble (10000000 + toDouble (draw07 * 90000000))\<rfloor> = 73000000"
  by code_simp

lemma track_draw07: "generateTrackingNumber draw07 = ''ST73000000''"
  unfolding generateTrackingNumber_def draw07_digits
  by (simp add: showInt_def showNat.simps digitChar_def)

lemma show1: "showInt 1 = ''1''"
  by (simp add: showInt_def showNat.simps digitChar_def)

section \<open>Status transitions\<close>

text \<open>
  The two transition functions do not look at the current status. On a shipped order
  \<open>markAsProcessing\<close> sets the status back to \<open>processing\<close>; on an order that awaits
  payment \<open>markAsShipped\<close> goes straight to \<open>shipped\<close>; on a shipped order
  \<open>markAsShipped\<close> reports success and replaces the tracking number.
\<close>

theorem transitions_unguarded:
  "persisted (markAsProcessing isoDigits ''MOCA-1''
      (pageFixture [(orderFixture ''MOCA-1'' ''shipped'' march1)
                      \<lparr>trackingNumber := Some ''ST12345678''\<rparr>])) =
     Stored [(orderFixture ''MOCA-1'' ''processing'' march1)
               \<lparr>trackingNumber := Some ''ST12345678''\<rparr>] \<and>
   persisted (markAsShipped isoDigits (1 / 2) ''MOCA-1''
      (pageFixture [orderFixture ''MOCA-1'' ''awaiting_payment'' march1])) =
     Stored [(orderFixture ''MOCA-1'' ''shipped'' march1)
               \<lparr>trackingNumber := Some ''ST55000000''\<rparr>] \<and>
   markAsShipped isoDigits (1 / 2) ''MOCA-1''
      (pageFixture [(orderFixture ''MOCA-1'' ''shipped'' march1)
                      \<lparr>trackingNumber := Some ''ST12345678''\<rparr>]) =
     ((pageFixture [(orderFixture ''MOCA-1'' ''shipped'' march1)
                      \<lparr>trackingNumber := Some ''ST55000000''\<rparr>])
        \<lparr>orders := [(orderFixture ''MOCA-1'' ''shipped'' march1)
                       \<lparr>trackingNumber := Some ''ST55000000''\<rparr>]\<rparr>,
      Alert ''Order MOCA-1 marked as shipped with tracking number: ST55000000'')"
  by (simp add: persisted_def markAsProcessing_def markAsShipped_def Let_def track_half
      pageFixture_def storeFixture_def orderFixture_def arraySort_def)

text \<open>
  C1. The forward-only progression is kept by the admin table, not by the transition
  functions: \<open>getOrderActions\<close> offers \<open>markAsProcessing\<close> only for an order whose
  status is \<open>awaiting_payment\<close>, \<open>markAsShipped\<close> only for one whose status is
  \<open>processing\<close>, and nothing for a shipped order. In a session of the admin page over
  a stored collection with distinct order ids, the status of every stored order is
  reached from its initial status by steps of the progression
  \<open>awaiting_payment\<close>, \<open>processing\<close>, \<open>shipped\<close>, and every offered action moves the
  chosen order exactly one step forward and leaves every other order as it was.
\<close>

theorem offered_action_advances:
  assumes "allOrders (storage pg0) = Stored os0" and "distinct (map order_id os0)"
    and "adminSession tm pg0 pg" and "order \<in> set (orders pg)"
    and "getOrderActions order = Some a"
  shows "\<exists>os os'. allOrders (storage pg) = Stored os \<and> order \<in> set os \<and>
           length os = length os0 \<and>
           (\<forall>i < length os0.
              nextStatus\<^sup>*\<^sup>* (order_status (os0 ! i)) (order_status (os ! i))) \<and>
           ((order_status order = ''awaiting_payment'' \<and> a = MarkProcessing (order_id order)) \<or>
            (order_status order = ''processing'' \<and> a = MarkShipped (order_id order))) \<and>
           persisted (onClick tm r a pg) = Stored os' \<and> length os' = length os \<and>
           (\<forall>i < length os.
              (os ! i = order \<longrightarrow>
                 order_id (os' ! i) = order_id order \<and>
                 nextStatus (order_status order) (order_status (os' ! i))) \<and>
              (os ! i \<noteq> order \<longrightarrow> os' ! i = os ! i))"
proof -
  from session_forward[OF assms(3) assms(1) assms(2)] obtain os where
    os: "allOrders (storage pg) = Stored os" "map order_id os = map order_id os0"
        "set (orders pg) = set os" and
    fw: "\<forall>i < length os0. nextStatus\<^sup>*\<^sup>* (order_status (os0 ! i)) (order_status (os ! i))"
    by blast
  have len: "length os = length os0" using os(2) by (rule map_eq_imp_length_eq)
  have dist: "distinct (map order_id os)" using assms(2) os(2) by simp
  have mem: "order \<in> set os" using assms(4) os(3) by simp
  have gate: "(order_status order = ''awaiting_payment'' \<and> a = MarkProcessing (order_id order)) \<or>
            (order_status order = ''processing'' \<and> a = MarkShipped (order_id order))"
    using assms(5) by (auto simp: getOrderActions_def split: if_splits)
  from offered_step[OF os(1) dist mem assms(5), of tm r] obtain os' where
    st: "persisted (onClick tm r a pg) = Stored os'" and
    ids: "map order_id os' = map order_id os" and
    each: "\<forall>i < length os.
              (os ! i = order \<longrightarrow>
                 order_id (os' ! i) = order_id order \<and>
                 nextStatus (order_status order) (order_status (os' ! i))) \<and>
              (os ! i \<noteq> order \<longrightarrow> os' ! i = os ! i)"
    by blast
  have len': "length os' = length os" using ids by (rule map_eq_imp_length_eq)
  show ?thesis
    apply (rule exI[of _ os], rule exI[of _ os'])
    using os(1) mem len fw gate st len' each by (intro conjI)
qed

theorem offered_action_advances_witness:
  "allOrders (storage (pageFixture
      [orderFixture ''MOCA-1'' ''awaiting_payment'' march1,
       orderFixture ''MOCA-2'' ''processing'' march2])) =
     Stored [orderFixture ''MOCA-1'' ''awaiting_payment'' march1,
             orderFixture ''MOCA-2'' ''processing'' march2] \<and>
   distinct (map order_id [orderFixture ''MOCA-1'' ''awaiting_payment'' march1,
                           orderFixture ''MOCA-2'' ''processing'' march2]) \<and>
   adminSession isoDigits
     (pageFixture [orderFixture ''MOCA-1'' ''awaiting_payment'' march1,
                   orderFixture ''MOCA-2'' ''processing'' march2])
     (loadOrders isoDigits
        (pageFixture [orderFixture ''MOCA-1'' ''awaiting_payment'' march1,
                      orderFixture ''MOCA-2'' ''processing'' march2])) \<and>
   orderFixture ''MOCA-1'' ''awaiting_payment'' march1 \<in>
     set (orders (loadOrders isoDigits
        (pageFixture [orderFixture ''MOCA-1'' ''awaiting_payment'' march1,
                      orderFixture ''MOCA-2'' ''processing'' march2]))) \<and>
   getOrderActions (orderFixture ''MOCA-1'' ''awaiting_payment'' march1) =
     Some (MarkProcessing ''MOCA-1'') \<and>
   persisted (onClick isoDigits (1 / 2) (MarkProcessing ''MOCA-1'')
      (loadOrders isoDigits
        (pageFixture [orderFixture ''MOCA-1'' ''awaiting_payment'' march1,
                      orderFixture ''MOCA-2'' ''processing'' march2]))) =
     Stored [orderFixture ''MOCA-1'' ''processing'' march1,
             orderFixture ''MOCA-2'' ''processing'' march2]"
proof -
  let ?a = "orderFixture ''MOCA-1'' ''awaiting_payment'' march1"
  let ?b = "orderFixture ''MOCA-2'' ''processing'' march2"
  let ?pg0 = "pageFixture [?a, ?b]"
  have h1: "allOrders (storage ?pg0) = Stored [?a, ?b]"
    by (simp add: pageFixture_def storeFixture_def)
  have h2: "distinct (map order_id [?a, ?b])"
    by (simp add: orderFixture_def)
  have h3: "adminSession isoDigits ?pg0 (loadOrders isoDigits ?pg0)"
    by (rule adminSession.loaded)
  have shown: "orders (loadOrders isoDigits ?pg0) = [?b, ?a]"
    by (simp add: loadOrders_def pageFixture_def storeFixture_def arraySort_def
        newestFirst_def orderFixture_def iso1 iso2)
  have h4: "?a \<in> set (orders (loadOrders isoDigits ?pg0))"
    by (simp add: shown)
  have h5: "getOrderActions ?a = Some (MarkProcessing ''MOCA-1'')"
    by (simp add: getOrderActions_def orderFixture_def)
  have res: "persisted (onClick isoDigits (1 / 2) (MarkProcessing ''MOCA-1'')
               (loadOrders isoDigits ?pg0)) =
             Stored [orderFixture ''MOCA-1'' ''processing'' march1, ?b]"
    by (simp add: persisted_def markAsProcessing_def Let_def loadOrders_def
        pageFixture_def storeFixture_def orderFixture_def)
  show ?thesis
    using h1 h2 h3 h4 h5 res offered_action_advances[OF h1 h2 h3 h4 h5, of "1 / 2"]
    by (intro conjI)
qed

text \<open>
  C9. Every call of \<open>markAsProcessing\<close> or \<open>markAsShipped\<close> on a stored collection
  persists a collection of the same length in which, position by position, an order
  whose id differs from \<open>orderId\<close> is unchanged, and a matching order differs from the
  old one in \<open>status\<close> only (\<open>markAsProcessing\<close>) or in \<open>status\<close> and \<open>trackingNumber\<close>
  only (\<open>markAsShipped\<close>): id, patient email, items, subtotal, shipping fee, total,
  creation time and payment method stay as they were.
\<close>

theorem transitions_frame:
  assumes "allOrders (storage pg) = Stored os"
  shows "\<exists>ps ss.
           persisted (markAsProcessing tm orderId pg) = Stored ps \<and>
           persisted (markAsShipped tm r orderId pg) = Stored ss \<and>
           length ps = length os \<and> length ss = length os \<and>
           map order_id ps = map order_id os \<and> map order_id ss = map order_id os \<and>
           (\<forall>i < length os.
              (order_id (os ! i) \<noteq> orderId \<longrightarrow> ps ! i = os ! i \<and> ss ! i = os ! i) \<and>
              (order_id (os ! i) = orderId \<longrightarrow>
                 ps ! i = (os ! i)\<lparr>order_status := ''processing''\<rparr> \<and>
                 ss ! i = (os ! i)\<lparr>order_status := ''shipped'',
                                   trackingNumber := Some (generateTrackingNumber r)\<rparr>))"
  using assms
  by (simp add: persisted_def markAsProcessing_def markAsShipped_def Let_def comp_def)

theorem transitions_frame_witness:
  "allOrders (storage (pageFixture
      [orderFixture ''MOCA-1'' ''awaiting_payment'' march1,
       orderFixture ''MOCA-2'' ''processing'' march2])) =
     Stored [orderFixture ''MOCA-1'' ''awaiting_payment'' march1,
             orderFixture ''MOCA-2'' ''processing'' march2] \<and>
   persisted (markAsProcessing isoDigits ''MOCA-1'' (pageFixture
      [orderFixture ''MOCA-1'' ''awaiting_payment'' march1,
       orderFixture ''MOCA-2'' ''processing'' march2])) =
     Stored [orderFixture ''MOCA-1'' ''processing'' march1,
             orderFixture ''MOCA-2'' ''processing'' march2] \<and>
   persisted (markAsShipped isoDigits (1 / 2) ''MOCA-2'' (pageFixture
      [orderFixture ''MOCA-1'' ''awaiting_payment'' march1,
       orderFixture ''MOCA-2'' ''processing'' march2])) =
     Stored [orderFixture ''MOCA-1'' ''awaiting_payment'' march1,
             (orderFixture ''MOCA-2'' ''shipped'' march2)
               \<lparr>trackingNumber := Some ''ST55000000''\<rparr>]"
proof -
  let ?os = "[orderFixture ''MOCA-1'' ''awaiting_payment'' march1,
              orderFixture ''MOCA-2'' ''processing'' march2]"
  have h: "allOrders (storage (pageFixture ?os)) = Stored ?os"
    by (simp add: pageFixture_def storeFixture_def)
  show ?thesis
    using h transitions_frame[OF h, of isoDigits "''MOCA-1''" "1 / 2"]
      transitions_frame[OF h, of isoDigits "''MOCA-2''" "1 / 2"]
    by (simp add: persisted_def markAsProcessing_def markAsShipped_def Let_def track_half
        pageFixture_def storeFixture_def orderFixture_def)
qed

text \<open>
  C7. When no stored order has the given id, \<open>markAsProcessing\<close> writes back the
  collection it read, element for element, and reports success (the alert of the
  success path, not the one of the \<open>catch\<close> branch).
\<close>

theorem absent_id_noop:
  assumes "allOrders (storage pg) = Stored os"
    and "orderId \<notin> set (map order_id os)"
  shows "persisted (markAsProcessing tm orderId pg) = Stored os \<and>
         snd (markAsProcessing tm orderId pg) = Alert (''Order '' @ orderId @ '' marked as processing'')"
proof -
  have "map (\<lambda>order. if order_id order = orderId
                      then order\<lparr>order_status := ''processing''\<rparr> else order) os = os"
    using assms(2) by (induction os) auto
  then show ?thesis
    using assms(1) by (simp add: persisted_def markAsProcessing_def)
qed

theorem absent_id_noop_witness:
  "allOrders (storage (pageFixture [orderFixture ''MOCA-1'' ''awaiting_payment'' march1])) =
     Stored [orderFixture ''MOCA-1'' ''awaiting_payment'' march1] \<and>
   ''MOCA-9'' \<notin> set (map order_id [orderFixture ''MOCA-1'' ''awaiting_payment'' march1]) \<and>
   persisted (markAsProcessing isoDigits ''MOCA-9''
      (pageFixture [orderFixture ''MOCA-1'' ''awaiting_payment'' march1])) =
     Stored [orderFixture ''MOCA-1'' ''awaiting_payment'' march1] \<and>
   snd (markAsProcessing isoDigits ''MOCA-9''
      (pageFixture [orderFixture ''MOCA-1'' ''awaiting_payment'' march1])) =
     Alert ''Order MOCA-9 marked as processing''"
proof -
  let ?os = "[orderFixture ''MOCA-1'' ''awaiting_payment'' march1]"
  have h1: "allOrders (storage (pageFixture ?os)) = Stored ?os"
    by (simp add: pageFixture_def storeFixture_def)
  have h2: "''MOCA-9'' \<notin> set (map order_id ?os)"
    by (simp add: orderFixture_def)
  show ?thesis
    using h1 h2 absent_id_noop[OF h1 h2, of isoDigits] by simp
qed

text \<open>
  C3. For a draw \<open>r\<close> of \<open>Math.random()\<close>, a double in \<open>[0, 1)\<close>, \<open>markAsShipped\<close> gives
  every stored order with the given id, in one update, the status \<open>shipped\<close> and the
  tracking number \<open>ST\<close> followed by the decimal text of a number between 10000000 and
  99999999, which has exactly eight digits; the number is the one that the double
  arithmetic of \<open>generateTrackingNumber\<close> yields.
\<close>

theorem shipped_has_tracking:
  assumes "allOrders (storage pg) = Stored os"
    and "isDouble r" and "0 \<le> r" and "r < 1"
  shows "\<exists>n ss. 10000000 \<le> n \<and> n \<le> 99999999 \<and>
           int n = \<lfloor>toDouble (10000000 + toDouble (r * 90000000))\<rfloor> \<and>
           length (showNat n) = 8 \<and> list_all isDigit (showNat n) \<and>
           persisted (markAsShipped tm r orderId pg) = Stored ss \<and>
           length ss = length os \<and>
           (\<forall>i < length os. order_id (os ! i) = orderId \<longrightarrow>
              ss ! i = (os ! i)\<lparr>order_status := ''shipped'',
                                trackingNumber := Some (''ST'' @ showNat n)\<rparr>)"
proof -
  define z where "z = \<lfloor>toDouble (10000000 + toDouble (r * 90000000))\<rfloor>"
  define n where "n = nat z"
  have z: "10000000 \<le> z" "z \<le> 99999999"
    using random_digits_range[OF assms(2,3,4)] by (simp_all add: z_def)
  then have n: "10000000 \<le> n" "n \<le> 99999999" by (simp_all add: n_def)
  have nz: "int n = z" using z by (simp add: n_def)
  have "10 ^ 7 \<le> n" "n < 10 ^ Suc 7" using n by simp_all
  then have len: "length (showNat n) = 8" using showNat_length[of 7 n] by simp
  have gen: "generateTrackingNumber r = ''ST'' @ showNat n"
    using z by (simp add: generateTrackingNumber_def showInt_def z_def[symmetric] n_def)
  show ?thesis
    using assms(1) n nz len showNat_digits[of n]
    by (intro exI[of _ n]) (simp add: persisted_def markAsShipped_def gen Let_def z_def)
qed

theorem shipped_has_tracking_witness:
  "allOrders (storage (pageFixture [orderFixture ''MOCA-2'' ''processing'' march2])) =
     Stored [orderFixture ''MOCA-2'' ''processing'' march2] \<and>
   isDouble draw07 \<and> 0 \<le> draw07 \<and> draw07 < 1 \<and>
   persisted (markAsShipped isoDigits draw07 ''MOCA-2''
      (pageFixture [orderFixture ''MOCA-2'' ''processing'' march2])) =
     Stored [(orderFixture ''MOCA-2'' ''shipped'' march2)
               \<lparr>trackingNumber := Some ''ST73000000''\<rparr>]"
proof -
  let ?os = "[orderFixture ''MOCA-2'' ''processing'' march2]"
  have h1: "allOrders (storage (pageFixture ?os)) = Stored ?os"
    by (simp add: pageFixture_def storeFixture_def)
  have h2: "isDouble draw07" by (rule draw07_double)
  have h3: "0 \<le> draw07" by (simp add: draw07_def)
  have h4: "draw07 < 1" by (simp add: draw07_def)
  have res: "persisted (markAsShipped isoDigits draw07 ''MOCA-2'' (pageFixture ?os)) =
     Stored [(orderFixture ''MOCA-2'' ''shipped'' march2)
               \<lparr>trackingNumber := Some ''ST73000000''\<rparr>]"
    by (simp add: persisted_def markAsShipped_def Let_def track_draw07
        pageFixture_def storeFixture_def orderFixture_def)
  show ?thesis
    using h1 h2 h3 h4 res shipped_has_tracking[OF h1 h2 h3 h4, of isoDigits "''MOCA-2''"]
    by (intro conjI)
qed

section \<open>Money\<close>

text \<open>
  C2. \<open>handlePayment\<close> creates an order whose subtotal is the sum over the cart, whose
  shipping fee is the flat fee 33 and whose total is \<open>subtotal + shippingFee\<close>, and that
  order is the one it appends to the collection and stores as the current order; the
  two transitions leave \<open>subtotal\<close>, \<open>shippingFee\<close> and \<open>total\<close> of every stored order
  as they were, so the equation still holds for every order after each of them.
\<close>

theorem total_is_subtotal_plus_shipping:
  "totalConsistent (newOrder now stamp cartState ls) \<and>
   subtotal (newOrder now stamp cartState ls) = checkoutSubtotal cartState \<and>
   shippingFee (newOrder now stamp cartState ls) = 33 \<and>
   order_total (newOrder now stamp cartState ls) = checkoutSubtotal cartState + 33 \<and>
   (allOrders ls \<noteq> Malformed \<longrightarrow>
      handlePayment now stamp cartState ls =
        (ls\<lparr>allOrders := Stored ((case allOrders ls of Stored os \<Rightarrow> os | _ \<Rightarrow> [])
                                  @ [newOrder now stamp cartState ls]),
            currentOrder := Some (newOrder now stamp cartState ls),
            cartItems := Absent\<rparr>, Navigate ''/order-success'')) \<and>
   (allOrders (storage pg) = Stored os \<longrightarrow>
      (\<exists>ps ss. persisted (markAsProcessing tm orderId pg) = Stored ps \<and>
               persisted (markAsShipped tm r orderId pg) = Stored ss \<and>
               map monetary ps = map monetary os \<and>
               map monetary ss = map monetary os \<and>
               (list_all totalConsistent os \<longrightarrow>
                  list_all totalConsistent ps \<and> list_all totalConsistent ss)))"
proof -
  have created: "totalConsistent (newOrder now stamp cartState ls)"
    by (simp add: totalConsistent_def newOrder_def checkoutTotal_def)
  have sub: "subtotal (newOrder now stamp cartState ls) = checkoutSubtotal cartState"
    by (simp add: newOrder_def)
  have fee: "shippingFee (newOrder now stamp cartState ls) = 33"
    by (simp add: newOrder_def flatShippingFee_def)
  have tot: "order_total (newOrder now stamp cartState ls) = checkoutSubtotal cartState + 33"
    by (simp add: newOrder_def checkoutTotal_def flatShippingFee_def)
  have placed: "handlePayment now stamp cartState ls =
        (ls\<lparr>allOrders := Stored ((case allOrders ls of Stored os \<Rightarrow> os | _ \<Rightarrow> [])
                                  @ [newOrder now stamp cartState ls]),
            currentOrder := Some (newOrder now stamp cartState ls),
            cartItems := Absent\<rparr>, Navigate ''/order-success'')"
    if "allOrders ls \<noteq> Malformed"
    using that by (rule handlePayment_ok)
  have kept: "\<exists>ps ss. persisted (markAsProcessing tm orderId pg) = Stored ps \<and>
               persisted (markAsShipped tm r orderId pg) = Stored ss \<and>
               map monetary ps = map monetary os \<and>
               map monetary ss = map monetary os \<and>
               (list_all totalConsistent os \<longrightarrow>
                  list_all totalConsistent ps \<and> list_all totalConsistent ss)"
    if st: "allOrders (storage pg) = Stored os"
  proof -
    let ?ps = "map (\<lambda>order. if order_id order = orderId
                        then order\<lparr>order_status := ''processing''\<rparr> else order) os"
    let ?ss = "map (\<lambda>order. if order_id order = orderId
                        then order\<lparr>order_status := ''shipped'',
                                   trackingNumber := Some (generateTrackingNumber r)\<rparr>
                        else order) os"
    have p: "persisted (markAsProcessing tm orderId pg) = Stored ?ps"
      using st by (simp add: persisted_def markAsProcessing_def Let_def)
    have s: "persisted (markAsShipped tm r orderId pg) = Stored ?ss"
      using st by (simp add: persisted_def markAsShipped_def Let_def)
    have mp: "map monetary ?ps = map monetary os" by (rule monetary_processing)
    have ms: "map monetary ?ss = map monetary os" by (rule monetary_shipped)
    have cp: "list_all totalConsistent os \<longrightarrow> list_all totalConsistent ?ps"
      using totalConsistent_monetary[OF mp] by (rule impI)
    have cs: "list_all totalConsistent os \<longrightarrow> list_all totalConsistent ?ss"
      using totalConsistent_monetary[OF ms] by (rule impI)
    show ?thesis
      apply (rule exI[of _ ?ps], rule exI[of _ ?ss])
      using p s mp ms cp cs by blast
  qed
  show ?thesis
    using created sub fee tot placed kept by (intro conjI impI)
qed

theorem total_is_subtotal_plus_shipping_witness:
  "totalConsistent
     (newOrder 1 march1 [\<lparr>prescription = rx001, quantitySelected = 20\<rparr>] (storeFixture Absent)) \<and>
   order_total
     (newOrder 1 march1 [\<lparr>prescription = rx001, quantitySelected = 20\<rparr>] (storeFixture Absent))
     = 283 \<and>
   allOrders (storeFixture Absent) \<noteq> Malformed \<and>
   allOrders (fst (handlePayment 1 march1 [\<lparr>prescription = rx001, quantitySelected = 20\<rparr>]
                     (storeFixture Absent))) =
     Stored [(orderFixture ''MOCA-1'' ''awaiting_payment'' march1)
               \<lparr>items := [\<lparr>prescription = rx001, quantitySelected = 20\<rparr>],
                subtotal := 250, order_total := 283\<rparr>] \<and>
   allOrders (storage (pageFixture
      [(orderFixture ''MOCA-1'' ''awaiting_payment'' march1)
         \<lparr>items := [\<lparr>prescription = rx001, quantitySelected = 20\<rparr>],
          subtotal := 250, order_total := 283\<rparr>,
       orderFixture ''MOCA-2'' ''processing'' march2])) =
     Stored [(orderFixture ''MOCA-1'' ''awaiting_payment'' march1)
               \<lparr>items := [\<lparr>prescription = rx001, quantitySelected = 20\<rparr>],
                subtotal := 250, order_total := 283\<rparr>,
             orderFixture ''MOCA-2'' ''processing'' march2] \<and>
   list_all totalConsistent
     [(orderFixture ''MOCA-1'' ''awaiting_payment'' march1)
        \<lparr>items := [\<lparr>prescription = rx001, quantitySelected = 20\<rparr>],
         subtotal := 250, order_total := 283\<rparr>,
      orderFixture ''MOCA-2'' ''processing'' march2] \<and>
   persisted (markAsProcessing isoDigits ''MOCA-1'' (pageFixture
      [(orderFixture ''MOCA-1'' ''awaiting_payment'' march1)
         \<lparr>items := [\<lparr>prescription = rx001, quantitySelected = 20\<rparr>],
          subtotal := 250, order_total := 283\<rparr>,
       orderFixture ''MOCA-2'' ''processing'' march2])) =
     Stored [(orderFixture ''MOCA-1'' ''processing'' march1)
               \<lparr>items := [\<lparr>prescription = rx001, quantitySelected = 20\<rparr>],
                subtotal := 250, order_total := 283\<rparr>,
             orderFixture ''MOCA-2'' ''processing'' march2] \<and>
   list_all totalConsistent
     [(orderFixture ''MOCA-1'' ''processing'' march1)
        \<lparr>items := [\<lparr>prescription = rx001, quantitySelected = 20\<rparr>],
         subtotal := 250, order_total := 283\<rparr>,
      orderFixture ''MOCA-2'' ''processing'' march2]"
proof -
  let ?cart = "[\<lparr>prescription = rx001, quantitySelected = 20\<rparr>]"
  let ?paid = "(orderFixture ''MOCA-1'' ''awaiting_payment'' march1)
                 \<lparr>items := ?cart, subtotal := 250, order_total := 283\<rparr>"
  let ?prepared = "(orderFixture ''MOCA-1'' ''processing'' march1)
                 \<lparr>items := ?cart, subtotal := 250, order_total := 283\<rparr>"
  let ?other = "orderFixture ''MOCA-2'' ''processing'' march2"
  let ?os = "[?paid, ?other]"
  have h0: "allOrders (storeFixture Absent) \<noteq> Malformed"
    by (simp add: storeFixture_def)
  have h1: "allOrders (storage (pageFixture ?os)) = Stored ?os"
    by (simp add: pageFixture_def storeFixture_def)
  have h2: "list_all totalConsistent ?os"
    by (simp add: totalConsistent_def orderFixture_def)
  have h3: "list_all totalConsistent [?prepared, ?other]"
    by (simp add: totalConsistent_def orderFixture_def)
  have sum: "checkoutSubtotal ?cart = 250"
    by (simp add: checkoutSubtotal_def rx001_def)
  have made: "newOrder 1 march1 ?cart (storeFixture Absent) = ?paid"
    by (simp add: newOrder_def orderFixture_def storeFixture_def show1 checkoutTotal_def
        sum flatShippingFee_def)
  have res: "persisted (markAsProcessing isoDigits ''MOCA-1'' (pageFixture ?os)) =
     Stored [?prepared, ?other]"
    by (simp add: persisted_def markAsProcessing_def Let_def
        pageFixture_def storeFixture_def orderFixture_def)
  note t = total_is_subtotal_plus_shipping[of 1 march1 ?cart "storeFixture Absent"
      "pageFixture ?os" ?os isoDigits "''MOCA-1''" "1 / 2"]
  have c1: "totalConsistent (newOrder 1 march1 ?cart (storeFixture Absent))"
    using t by (rule conjunct1)
  have c2: "order_total (newOrder 1 march1 ?cart (storeFixture Absent)) = 283"
    using t by (simp add: sum)
  have "handlePayment 1 march1 ?cart (storeFixture Absent) =
        ((storeFixture Absent)\<lparr>allOrders := Stored
            ((case allOrders (storeFixture Absent) of Stored os \<Rightarrow> os | _ \<Rightarrow> [])
               @ [newOrder 1 march1 ?cart (storeFixture Absent)]),
          currentOrder := Some (newOrder 1 march1 ?cart (storeFixture Absent)),
          cartItems := Absent\<rparr>, Navigate ''/order-success'')"
    using t h0 by blast
  then have c3: "allOrders (fst (handlePayment 1 march1 ?cart (storeFixture Absent))) =
     Stored [?paid]"
    by (simp add: made) (simp add: storeFixture_def)
  show ?thesis
    using c1 c2 h0 c3 h1 h2 res h3 by (intro conjI)
qed

section \<open>Cart\<close>

text \<open>
  C5. For a prescription with no repeats left or with a status other than \<open>active\<close>,
  \<open>addToCart\<close> leaves the cart as it was and tells the user that the prescription cannot
  be ordered; it raises nothing.
\<close>

theorem ineligible_rejected:
  assumes "repeats p = 0 \<or> rx_status p \<noteq> Active"
  shows "addToCart p cart = (cart, Alert ''This prescription cannot be ordered'')"
  using assms by (auto simp: addToCart_def)

theorem ineligible_rejected_witness:
  "repeats rx003 = 0 \<and>
   addToCart rx003 [\<lparr>prescription = rx001, quantitySelected = 20\<rparr>] =
     ([\<lparr>prescription = rx001, quantitySelected = 20\<rparr>],
      Alert ''This prescription cannot be ordered'')"
proof -
  have h: "repeats rx003 = 0" by (simp add: rx003_def)
  then have "repeats rx003 = 0 \<or> rx_status rx003 \<noteq> Active" by (rule disjI1)
  then show ?thesis
    using h ineligible_rejected[of rx003 "[\<lparr>prescription = rx001, quantitySelected = 20\<rparr>]"]
    by simp
qed

text \<open>
  C6. For an active prescription with repeats left: when some cart line has its id,
  \<open>addToCart\<close> keeps the number of lines, adds the prescription's full quantity to the
  selected quantity of the lines with that id and leaves the other lines as they were;
  otherwise it appends one line whose selected quantity is the prescription's quantity.
\<close>

theorem eligible_merge_or_append:
  assumes "rx_status p = Active" and "repeats p > 0"
  shows "if rx_id p \<in> set (map (\<lambda>item. rx_id (prescription item)) cart)
         then length (fst (addToCart p cart)) = length cart \<and>
              (\<forall>i < length cart.
                 fst (addToCart p cart) ! i =
                   (if rx_id (prescription (cart ! i)) = rx_id p
                    then (cart ! i)\<lparr>quantitySelected := quantitySelected (cart ! i) + quantity p\<rparr>
                    else cart ! i))
         else fst (addToCart p cart) = cart @ [\<lparr>prescription = p, quantitySelected = quantity p\<rparr>]"
proof (cases "find (\<lambda>item. rx_id (prescription item) = rx_id p) cart")
  case None
  then show ?thesis
    using assms find_None_iff_ids[of "rx_id p" cart] by (simp add: addToCart_def)
next
  case (Some a)
  then have "rx_id p \<in> set (map (\<lambda>item. rx_id (prescription item)) cart)"
    using find_None_iff_ids[of "rx_id p" cart] by simp
  then show ?thesis
    using assms Some by (simp add: addToCart_def)
qed

theorem eligible_merge_or_append_witness:
  "rx_status rx001 = Active \<and> 0 < repeats rx001 \<and>
   fst (addToCart rx001 [\<lparr>prescription = rx001, quantitySelected = 20\<rparr>]) =
     [\<lparr>prescription = rx001, quantitySelected = 40\<rparr>] \<and>
   fst (addToCart rx001 []) = [\<lparr>prescription = rx001, quantitySelected = 20\<rparr>]"
proof -
  have h1: "rx_status rx001 = Active" by (simp add: rx001_def)
  have h2: "0 < repeats rx001" by (simp add: rx001_def)
  have q: "quantity rx001 = 20" by (simp add: rx001_def)
  have merged: "fst (addToCart rx001 [\<lparr>prescription = rx001, quantitySelected = 20\<rparr>]) =
     [\<lparr>prescription = rx001, quantitySelected = 40\<rparr>]"
    using eligible_merge_or_append[OF h1 h2, of "[\<lparr>prescription = rx001, quantitySelected = 20\<rparr>]"]
    by (simp add: q list_eq_iff_nth_eq)
  have appended: "fst (addToCart rx001 []) = [\<lparr>prescription = rx001, quantitySelected = 20\<rparr>]"
    using eligible_merge_or_append[OF h1 h2, of "[]"] by (simp add: q)
  show ?thesis
    using h1 h2 merged appended by (intro conjI)
qed

section \<open>Checkout\<close>

text \<open>
  C8. Adding the prescription \<open>rx-001\<close> (price 12.50, quantity 20) to an empty cart
  gives a cart total of 250; taking that cart through the checkout page of a signed-in
  patient creates an order with subtotal 250, shipping fee 33, total 283, status
  \<open>awaiting_payment\<close> and no tracking number, stored as the current order and as the
  last order of the collection.
\<close>

theorem rx001_end_to_end:
  assumes "isAuthenticated ls = Some ''true''" and "allOrders ls \<noteq> Malformed"
  shows "\<exists>cart ls1 ls2 order before.
           addToCart rx001 [] = (cart, Alert ''Added to cart!'') \<and>
           cartTotal cart = 250 \<and>
           proceedToCheckout cart ls = (ls1, Navigate ''/checkout'') \<and>
           checkoutMount ls1 = (cart, Silent) \<and>
           handlePayment now stamp cart ls1 = (ls2, Navigate ''/order-success'') \<and>
           currentOrder ls2 = Some order \<and>
           allOrders ls2 = Stored (before @ [order]) \<and>
           subtotal order = 250 \<and> shippingFee order = 33 \<and> order_total order = 283 \<and>
           order_status order = ''awaiting_payment'' \<and> trackingNumber order = None"
proof -
  define cart where "cart = [\<lparr>prescription = rx001, quantitySelected = 20\<rparr>]"
  define ls1 where "ls1 = ls\<lparr>cartItems := Stored cart\<rparr>"
  define order where "order = newOrder now stamp cart ls1"
  define before where "before = (case allOrders ls of Stored os \<Rightarrow> os | _ \<Rightarrow> [])"
  define ls2 where "ls2 = ls1\<lparr>allOrders := Stored (before @ [order]),
                               currentOrder := Some order, cartItems := Absent\<rparr>"
  have a: "addToCart rx001 [] = (cart, Alert ''Added to cart!'')"
    by (simp add: addToCart_def rx001_def cart_def)
  have t: "cartTotal cart = 250"
    by (simp add: cartTotal_def rx001_def cart_def)
  have p: "proceedToCheckout cart ls = (ls1, Navigate ''/checkout'')"
    by (simp add: proceedToCheckout_def ls1_def cart_def)
  have m: "checkoutMount ls1 = (cart, Silent)"
    using assms(1) by (simp add: checkoutMount_def ls1_def)
  have s: "checkoutSubtotal cart = 250"
    by (simp add: checkoutSubtotal_def rx001_def cart_def)
  have o1: "subtotal order = 250" by (simp add: order_def newOrder_def s)
  have o2: "shippingFee order = 33" by (simp add: order_def newOrder_def flatShippingFee_def)
  have o3: "order_total order = 283"
    by (simp add: order_def newOrder_def checkoutTotal_def s flatShippingFee_def)
  have o4: "order_status order = ''awaiting_payment''" by (simp add: order_def newOrder_def)
  have o5: "trackingNumber order = None" by (simp add: order_def newOrder_def)
  have same: "allOrders ls1 = allOrders ls" by (simp add: ls1_def)
  then have "allOrders ls1 \<noteq> Malformed" using assms(2) by simp
  then have h: "handlePayment now stamp cart ls1 = (ls2, Navigate ''/order-success'')"
    unfolding ls2_def before_def order_def same[symmetric] by (rule handlePayment_ok)
  have c: "currentOrder ls2 = Some order" by (simp add: ls2_def)
  have l: "allOrders ls2 = Stored (before @ [order])" by (simp add: ls2_def)
  show ?thesis
    apply (rule exI[of _ cart], rule exI[of _ ls1])
    apply (rule exI[of _ ls2], rule exI[of _ order], rule exI[of _ before])
    using a t p m h c l o1 o2 o3 o4 o5 by (intro conjI)
qed

theorem rx001_end_to_end_witness:
  "isAuthenticated (storeFixture Absent) = Some ''true'' \<and>
   allOrders (storeFixture Absent) \<noteq> Malformed \<and>
   cartTotal (fst (addToCart rx001 [])) = 250 \<and>
   order_total (newOrder 1 march1 (fst (addToCart rx001 []))
      (fst (proceedToCheckout (fst (addToCart rx001 [])) (storeFixture Absent)))) = 283"
proof -
  have h1: "isAuthenticated (storeFixture Absent) = Some ''true''"
    by (simp add: storeFixture_def)
  have h2: "allOrders (storeFixture Absent) \<noteq> Malformed"
    by (simp add: storeFixture_def)
  from rx001_end_to_end[OF h1 h2, of 1 march1]
  obtain cart ls1 ls2 order where
    a: "addToCart rx001 [] = (cart, Alert ''Added to cart!'')" and
    t: "cartTotal cart = 250" and
    p: "proceedToCheckout cart (storeFixture Absent) = (ls1, Navigate ''/checkout'')" and
    m: "checkoutMount ls1 = (cart, Silent)" and
    h: "handlePayment 1 march1 cart ls1 = (ls2, Navigate ''/order-success'')" and
    c: "currentOrder ls2 = Some order" and
    o: "order_total order = 283"
    by blast
  have "allOrders ls1 \<noteq> Malformed"
    using p h2 by (auto simp: proceedToCheckout_def split: if_splits)
  then have "currentOrder ls2 = Some (newOrder 1 march1 cart ls1)"
    using handlePayment_ok[of ls1 1 march1 cart] h by auto
  then have "order_total (newOrder 1 march1 cart ls1) = 283"
    using c o by simp
  then show ?thesis
    using h1 h2 a t p by simp
qed

text \<open>
  C10. \<open>handlePayment\<close> has no check of the cart: with an empty cart (and a store whose
  order collection can be read) it still appends an order with no items, subtotal 0,
  shipping fee 33, total 33, status \<open>awaiting_payment\<close> and no tracking number to the
  collection, stores it as the current order and removes the stored cart.
\<close>

theorem empty_cart_payment:
  assumes "allOrders ls \<noteq> Malformed"
  shows "handlePayment now stamp [] ls =
           (ls\<lparr>allOrders := Stored ((case allOrders ls of Stored os \<Rightarrow> os | _ \<Rightarrow> [])
                                     @ [newOrder now stamp [] ls]),
               currentOrder := Some (newOrder now stamp [] ls),
               cartItems := Absent\<rparr>, Navigate ''/order-success'') \<and>
         items (newOrder now stamp [] ls) = [] \<and>
         subtotal (newOrder now stamp [] ls) = 0 \<and>
         shippingFee (newOrder now stamp [] ls) = 33 \<and>
         order_total (newOrder now stamp [] ls) = 33 \<and>
         order_status (newOrder now stamp [] ls) = ''awaiting_payment'' \<and>
         trackingNumber (newOrder now stamp [] ls) = None"
proof -
  have "items (newOrder now stamp [] ls) = []"
    and "subtotal (newOrder now stamp [] ls) = 0"
    and "shippingFee (newOrder now stamp [] ls) = 33"
    and "order_total (newOrder now stamp [] ls) = 33"
    and "order_status (newOrder now stamp [] ls) = ''awaiting_payment''"
    and "trackingNumber (newOrder now stamp [] ls) = None"
    by (simp_all add: newOrder_def checkoutTotal_def checkoutSubtotal_def flatShippingFee_def)
  then show ?thesis
    using handlePayment_ok[OF assms, of now stamp "[]"] by (intro conjI)
qed

theorem empty_cart_payment_witness:
  "allOrders (storeFixture Absent) \<noteq> Malformed \<and>
   handlePayment 1 march1 [] (storeFixture Absent) =
     ((storeFixture Absent)
        \<lparr>allOrders := Stored [orderFixture ''MOCA-1'' ''awaiting_payment'' march1],
         currentOrder := Some (orderFixture ''MOCA-1'' ''awaiting_payment'' march1),
         cartItems := Absent\<rparr>,
      Navigate ''/order-success'')"
proof -
  have h: "allOrders (storeFixture Absent) \<noteq> Malformed"
    by (simp add: storeFixture_def)
  have made: "newOrder 1 march1 [] (storeFixture Absent) =
              orderFixture ''MOCA-1'' ''awaiting_payment'' march1"
    by (simp add: newOrder_def orderFixture_def storeFixture_def show1 checkoutTotal_def
        checkoutSubtotal_def flatShippingFee_def)
  have "allOrders (storeFixture Absent) = Absent"
    by (simp add: storeFixture_def)
  then show ?thesis
    using h empty_cart_payment[OF h, of 1 march1] by (simp add: made)
qed

section \<open>Patient order view\<close>

text \<open>
  Two orders of one patient with the same creation time come out in the order of the
  collection: the one appended first is shown first, the one appended later last.
\<close>

theorem patient_orders_tie:
  "loadPatientOrders isoDigits ''pat@moca.test''
      (storeFixture (Stored [orderFixture ''MOCA-1'' ''awaiting_payment'' march1,
                             orderFixture ''MOCA-2'' ''awaiting_payment'' march1])) =
     [orderFixture ''MOCA-1'' ''awaiting_payment'' march1,
      orderFixture ''MOCA-2'' ''awaiting_payment'' march1] \<and>
   createdAt (orderFixture ''MOCA-1'' ''awaiting_payment'' march1) =
     createdAt (orderFixture ''MOCA-2'' ''awaiting_payment'' march1) \<and>
   orderFixture ''MOCA-1'' ''awaiting_payment'' march1 \<noteq>
     orderFixture ''MOCA-2'' ''awaiting_payment'' march1"
  by (simp add: loadPatientOrders_def storeFixture_def orderFixture_def arraySort_def
      newestFirst_def)

text \<open>
  C4. For every email and every stored collection, \<open>loadPatientOrders\<close>
  returns exactly the orders whose \<open>patientEmail\<close> is that email (each as often as the
  collection holds it), newest first by creation time, and orders with equal creation
  times keep the order of the collection: the one appended earlier comes first.
\<close>

theorem patient_orders_newest_first_stable:
  assumes "allOrders ls = Stored os"
  shows "mset (loadPatientOrders tm email ls) =
           mset (filter (\<lambda>order. patientEmail order = Some email) os) \<and>
         sorted_wrt (\<lambda>a b. tm (createdAt b) \<le> tm (createdAt a)) (loadPatientOrders tm email ls) \<and>
         (\<forall>t. filter (\<lambda>order. tm (createdAt order) = t) (loadPatientOrders tm email ls) =
              filter (\<lambda>order. tm (createdAt order) = t)
                (filter (\<lambda>order. patientEmail order = Some email) os))"
proof -
  let ?mine = "filter (\<lambda>order. patientEmail order = Some email) os"
  let ?key = "\<lambda>order. - tm (createdAt order)"
  have res: "loadPatientOrders tm email ls = sort_key ?key ?mine"
    using assms by (simp add: loadPatientOrders_def arraySort_newestFirst)
  have same: "mset (sort_key ?key ?mine) = mset ?mine" by simp
  have "sorted (map ?key (sort_key ?key ?mine))" by (rule sorted_sort_key)
  then have desc: "sorted_wrt (\<lambda>a b. tm (createdAt b) \<le> tm (createdAt a)) (sort_key ?key ?mine)"
    by (simp add: sorted_map)
  have ties: "filter (\<lambda>order. tm (createdAt order) = t) (sort_key ?key ?mine) =
              filter (\<lambda>order. tm (createdAt order) = t) ?mine" for t
    using sort_key_stable[of ?key "- t" ?mine] by simp
  show ?thesis
    unfolding res using same desc ties by blast
qed

theorem patient_orders_newest_first_stable_witness:
  "allOrders (storeFixture (Stored
      [orderFixture ''MOCA-1'' ''shipped'' march1,
       (orderFixture ''MOCA-2'' ''processing'' march2)\<lparr>patientEmail := Some ''other@moca.test''\<rparr>,
       orderFixture ''MOCA-3'' ''awaiting_payment'' march2])) =
     Stored [orderFixture ''MOCA-1'' ''shipped'' march1,
       (orderFixture ''MOCA-2'' ''processing'' march2)\<lparr>patientEmail := Some ''other@moca.test''\<rparr>,
       orderFixture ''MOCA-3'' ''awaiting_payment'' march2] \<and>
   loadPatientOrders isoDigits ''pat@moca.test'' (storeFixture (Stored
      [orderFixture ''MOCA-1'' ''shipped'' march1,
       (orderFixture ''MOCA-2'' ''processing'' march2)\<lparr>patientEmail := Some ''other@moca.test''\<rparr>,
       orderFixture ''MOCA-3'' ''awaiting_payment'' march2])) =
     [orderFixture ''MOCA-3'' ''awaiting_payment'' march2,
      orderFixture ''MOCA-1'' ''shipped'' march1]"
proof -
  let ?os = "[orderFixture ''MOCA-1'' ''shipped'' march1,
       (orderFixture ''MOCA-2'' ''processing'' march2)\<lparr>patientEmail := Some ''other@moca.test''\<rparr>,
       orderFixture ''MOCA-3'' ''awaiting_payment'' march2]"
  have h: "allOrders (storeFixture (Stored ?os)) = Stored ?os"
    by (simp add: storeFixture_def)
  have res: "loadPatientOrders isoDigits ''pat@moca.test'' (storeFixture (Stored ?os)) =
     [orderFixture ''MOCA-3'' ''awaiting_payment'' march2,
      orderFixture ''MOCA-1'' ''shipped'' march1]"
    by (simp add: loadPatientOrders_def storeFixture_def orderFixture_def arraySort_def
        newestFirst_def iso1 iso2)
  show ?thesis
    using h res patient_orders_newest_first_stable[OF h, of isoDigits "''pat@moca.test''"]
    by (intro conjI)
qed

end
